theory Spec2Isabelle
  imports Main "HOL-Library.Char_ord" "HOL-Library.List_Lexorder"
    "HOL-Library.Product_Lexorder" "HOL-Library.Multiset"
begin

section \<open>Strings and paths\<close>

text \<open>
  A Python \<open>str\<close> is modelled by its UTF-8 encoding, a \<open>string\<close> whose characters are
  bytes. Comparing two such strings byte by byte is comparing them code point by code point,
  and \<open>startswith\<close>, \<open>endswith\<close> and \<open>==\<close> agree with their byte versions.
  A path is the list of its components: \<open>os.path.join(root, name)\<close> appends a
  component, \<open>os.path.basename\<close> is the last one.
\<close>

type_synonym path = "string list"

definition startswith :: "string \<Rightarrow> string \<Rightarrow> bool" where
  "startswith s p = (take (length p) s = p)"

definition endswith :: "string \<Rightarrow> string \<Rightarrow> bool" where
  "endswith s e = (length e \<le> length s \<and> drop (length s - length e) s = e)"

definition basename :: "path \<Rightarrow> string" where
  "basename p = (if p = [] then [] else last p)"

section \<open>Path Filter\<close>

subsection \<open>Configuration\<close>

text \<open>The include list is the same in \<open>generate4llm_script.py\<close> and \<open>dev-tools/generate4LLM.py\<close>.\<close>

definition include_files :: "string list" where
  "include_files =
    [''main.py'', ''app.py'', ''requirements.txt'', ''README.md'', ''config.py'',
     ''utils.py'', ''models.py'', ''views.py'', ''routes.py'',
     ''*.js'', ''*.html'', ''*.css'', ''*.json'', ''*.yml'', ''*.yaml'',
     ''Dockerfile'', ''docker-compose.yml'', ''.env.example'', ''package.json'',
     ''tsconfig.json'', ''*.ts'', ''*.tsx'', ''*.jsx'']"

text \<open>
  \<open>exclude_dirs\<close> as both files initialise it. \<open>dev-tools/generate4LLM.py\<close> adds the name
  of the script's own directory to the set at run time, so its functions take the current
  set as an argument.
\<close>

definition exclude_dirs :: "string set" where
  "exclude_dirs =
    {''__pycache__'', ''.git'', ''.vscode'', ''.idea'', ''node_modules'', ''.next'',
     ''build'', ''dist'', ''.pytest_cache'', ''.coverage'', ''venv'', ''env'', ''.env'',
     ''.mypy_cache'', ''.DS_Store''}"

text \<open>\<open>exclude_files\<close> of \<open>generate4llm_script.py\<close>.\<close>

definition exclude_files :: "string set" where
  "exclude_files =
    {''.gitignore'', ''.env'', ''*.pyc'', ''*.pyo'', ''*.pyd'', ''.DS_Store'', ''Thumbs.db'',
     ''*.log'', ''package-lock.json'', ''package.old.json'', ''stockfish.js''}"

text \<open>\<open>exclude_files\<close> of \<open>dev-tools/generate4LLM.py\<close>.\<close>

definition exclude_files_dev :: "string set" where
  "exclude_files_dev =
    {''.gitignore'', ''.env'', ''*.pyc'', ''*.pyo'', ''*.pyd'', ''.DS_Store'', ''Thumbs.db'',
     ''*.log'', ''package-lock.json'', ''yarn.lock''}"

subsection \<open>Inclusion\<close>

text \<open>The \<open>for pattern in include_files\<close> loop of \<open>should_include_file\<close>.\<close>

fun include_loop :: "string \<Rightarrow> string list \<Rightarrow> bool" where
  "include_loop file_name [] = False"
| "include_loop file_name (pattern # rest) =
     (if startswith pattern ''*''
      then (if endswith file_name (drop 1 pattern) then True else include_loop file_name rest)
      else (if file_name = pattern then True else include_loop file_name rest))"

definition should_include_file :: "path \<Rightarrow> bool" where
  "should_include_file file_path = include_loop (basename file_path) include_files"

subsection \<open>Exclusion\<close>

text \<open>\<open>should_exclude_from_tree\<close> of \<open>generate4llm_script.py\<close>.\<close>

definition should_exclude_from_tree :: "string \<Rightarrow> bool \<Rightarrow> bool" where
  "should_exclude_from_tree name is_dir =
     (if is_dir then name \<in> exclude_dirs
      else name \<in> exclude_files \<or> startswith name ''.'')"

text \<open>\<open>should_exclude\<close> of \<open>dev-tools/generate4LLM.py\<close>; \<open>xdirs\<close> is the current \<open>exclude_dirs\<close>.\<close>

definition should_exclude :: "string set \<Rightarrow> string \<Rightarrow> bool \<Rightarrow> bool" where
  "should_exclude xdirs path_name is_dir =
     (if is_dir then path_name \<in> xdirs else path_name \<in> exclude_files_dev)"

section \<open>The file system\<close>

text \<open>
  The directory tree under the root directory, as the operating system presents it. The
  entries of a directory are in the order in which \<open>os.listdir\<close>, \<open>os.walk\<close> and
  \<open>Path.iterdir\<close> return them. A directory that cannot be listed carries the error
  that listing it raises. A path of the source that denotes an entry is modelled by the
  entry; symbolic links are not modelled.
\<close>

datatype oserror =
    PermissionError string
  | FileNotFoundError string
  | NotADirectoryError string
  | OtherOSError string

datatype fsnode =
    File (name: string)
  | Dir (name: string) (failure: "oserror option") (entries: "fsnode list")

text \<open>\<open>os.path.isdir\<close>.\<close>

fun isdir :: "fsnode \<Rightarrow> bool" where
  "isdir (File n) = False"
| "isdir (Dir n f es) = True"

text \<open>\<open>os.listdir\<close>: the entries, or the error raised.\<close>

fun listdir :: "fsnode \<Rightarrow> oserror + fsnode list" where
  "listdir (File n) = Inl (NotADirectoryError ''[Errno 20] Not a directory'')"
| "listdir (Dir n None es) = Inr es"
| "listdir (Dir n (Some e) es) = Inl e"

text \<open>
  \<open>os.path.relpath(file_path, root_dir)\<close> for a path given by its components below
  \<open>root_dir\<close>: the components joined by the separator.
\<close>

fun relpath :: "path \<Rightarrow> string" where
  "relpath [] = ''.''"
| "relpath [c] = c"
| "relpath (c # cs) = c @ ''/'' @ relpath cs"

section \<open>Tree Renderer\<close>

text \<open>
  \<open>str.lower\<close> is a function of the Python runtime on the whole of Unicode. The functions
  that call it take it as their argument \<open>str_lower\<close>, a function on encoded text, and
  what is proved of them holds whatever it is. On text of ASCII characters it is
  \<open>ascii_lower\<close>, with which the functions are run on examples.
\<close>

definition ascii_lower_char :: "char \<Rightarrow> char" where
  "ascii_lower_char c =
     (if CHR ''A'' \<le> c \<and> c \<le> CHR ''Z'' then char_of (of_char c + (32::nat)) else c)"

definition ascii_lower :: "string \<Rightarrow> string" where
  "ascii_lower s = map ascii_lower_char s"

text \<open>The line feed and the box-drawing glyphs, in UTF-8.\<close>

definition newline :: string where
  "newline = [CHR 0x0A]"

text \<open>U+251C U+2500 U+2500 and a space.\<close>

definition branch_mid :: string where
  "branch_mid = [CHR 0xE2, CHR 0x94, CHR 0x9C, CHR 0xE2, CHR 0x94, CHR 0x80,
                 CHR 0xE2, CHR 0x94, CHR 0x80, CHR 0x20]"

text \<open>U+2514 U+2500 U+2500 and a space.\<close>

definition branch_last :: string where
  "branch_last = [CHR 0xE2, CHR 0x94, CHR 0x94, CHR 0xE2, CHR 0x94, CHR 0x80,
                  CHR 0xE2, CHR 0x94, CHR 0x80, CHR 0x20]"

text \<open>U+2502 and three spaces.\<close>

definition pipe_indent :: string where
  "pipe_indent = [CHR 0xE2, CHR 0x94, CHR 0x82, CHR 0x20, CHR 0x20, CHR 0x20]"

definition space_indent :: string where
  "space_indent = [CHR 0x20, CHR 0x20, CHR 0x20, CHR 0x20]"

text \<open>
  \<open>tree_str += ...\<close> over the iterations of the loop: the pieces in order, unless an
  iteration raises, which ends the loop with that exception.
\<close>

fun seq_concat :: "(oserror + string) list \<Rightarrow> oserror + string" where
  "seq_concat [] = Inr []"
| "seq_concat (r # rs) =
     (case r of
        Inl e \<Rightarrow> Inl e
      | Inr s \<Rightarrow> (case seq_concat rs of Inl e \<Rightarrow> Inl e | Inr t \<Rightarrow> Inr (s @ t)))"

text \<open>
  \<open>generate_tree\<close> of \<open>generate4llm_script.py\<close>. Only \<open>PermissionError\<close> is caught; any
  other error of \<open>os.listdir\<close> leaves the function. The recursion is on the depth alone.
\<close>

function generate_tree :: "(string \<Rightarrow> string) \<Rightarrow> fsnode \<Rightarrow> string \<Rightarrow> bool \<Rightarrow> nat \<Rightarrow> nat \<Rightarrow> oserror + string" where
  "generate_tree str_lower directory prefix is_last max_depth current_depth =
     (if current_depth > max_depth then Inr []
      else (case listdir directory of
          Inl (PermissionError msg) \<Rightarrow> Inr (prefix @ ''[Permission Denied]'' @ newline)
        | Inl e \<Rightarrow> Inl e
        | Inr listing \<Rightarrow>
            (let items = sort_key (\<lambda>x. (\<not> isdir x, str_lower (name x)))
                           [item \<leftarrow> listing. \<not> should_exclude_from_tree (name item) (isdir item)]
             in seq_concat (map (\<lambda>(i, item).
               (let is_last_item = (i = length items - 1);
                    tree_symbol = (if is_last_item then branch_last else branch_mid);
                    next_prefix = (if is_last_item then prefix @ space_indent
                                   else prefix @ pipe_indent)
                in (case (if isdir item
                          then generate_tree str_lower item next_prefix is_last_item max_depth
                                 (current_depth + 1)
                          else Inr [])
                    of Inl e \<Rightarrow> Inl e
                     | Inr sub \<Rightarrow> Inr (prefix @ tree_symbol @ name item @ newline @ sub))))
              (enumerate 0 items)))))"
  by pat_completeness auto
termination
  by (relation "measure (\<lambda>(s, d, p, l, m, c). Suc m - c)") auto

declare generate_tree.simps [simp del]

text \<open>\<open>generate_tree\<close> of \<open>dev-tools/generate4LLM.py\<close>.\<close>

function generate_tree_dev :: "(string \<Rightarrow> string) \<Rightarrow> string set \<Rightarrow> fsnode \<Rightarrow> string \<Rightarrow> nat \<Rightarrow> nat \<Rightarrow> oserror + string" where
  "generate_tree_dev str_lower xdirs directory prefix max_depth current_depth =
     (if current_depth > max_depth then Inr []
      else (case listdir directory of
          Inl (PermissionError msg) \<Rightarrow> Inr (prefix @ ''[Permission Denied]'' @ newline)
        | Inl e \<Rightarrow> Inl e
        | Inr listing \<Rightarrow>
            (let items = sort_key (\<lambda>x. (\<not> isdir x, str_lower (name x)))
                           [item \<leftarrow> listing. \<not> should_exclude xdirs (name item) (isdir item)]
             in seq_concat (map (\<lambda>(i, item).
               (let is_last_item = (i = length items - 1);
                    tree_symbol = (if is_last_item then branch_last else branch_mid);
                    next_prefix = prefix @ (if is_last_item then space_indent else pipe_indent)
                in (case (if isdir item
                          then generate_tree_dev str_lower xdirs item next_prefix max_depth
                                 (current_depth + 1)
                          else Inr [])
                    of Inl e \<Rightarrow> Inl e
                     | Inr sub \<Rightarrow> Inr (prefix @ tree_symbol @ name item @ newline @ sub))))
              (enumerate 0 items)))))"
  by pat_completeness auto
termination
  by (relation "measure (\<lambda>(s, x, d, p, m, c). Suc m - c)") auto

declare generate_tree_dev.simps [simp del]

section \<open>File Collector\<close>

text \<open>
  The loop over \<open>os.walk(root_dir)\<close> in \<open>find_files_to_include\<close>
  (\<open>generate4llm_script.py\<close>): the paths appended to \<open>files_to_include\<close>, in order.
  \<open>os.walk\<close> yields a directory with its sub-directories and its other entries, the loop
  body filters the sub-directories in place, and \<open>os.walk\<close> then descends into the ones
  that are left. It yields nothing for a directory that it cannot list. \<open>root\<close> is the
  path of the directory below \<open>root_dir\<close>.
\<close>

fun walk_include :: "path \<Rightarrow> fsnode \<Rightarrow> path list" where
  "walk_include root (File n) = []"
| "walk_include root (Dir n (Some e) es) = []"
| "walk_include root (Dir n None es) =
     concat (map (\<lambda>file.
         if should_exclude_from_tree (name file) False then []
         else if should_include_file (root @ [name file]) then [root @ [name file]] else [])
       [e \<leftarrow> es. \<not> isdir e])
     @ concat (map (\<lambda>d. walk_include (root @ [name d]) d)
       [d \<leftarrow> [e \<leftarrow> es. isdir e]. \<not> should_exclude_from_tree (name d) True])"

definition find_files_to_include :: "fsnode \<Rightarrow> string list" where
  "find_files_to_include root_dir = sort (map relpath (walk_include [] root_dir))"

text \<open>The same loop in \<open>find_files_to_process\<close> (\<open>dev-tools/generate4LLM.py\<close>).\<close>

fun walk_process :: "string set \<Rightarrow> path \<Rightarrow> fsnode \<Rightarrow> path list" where
  "walk_process xdirs root (File n) = []"
| "walk_process xdirs root (Dir n (Some e) es) = []"
| "walk_process xdirs root (Dir n None es) =
     concat (map (\<lambda>file.
         if should_exclude xdirs (name file) False then []
         else if should_include_file (root @ [name file]) then [root @ [name file]] else [])
       [e \<leftarrow> es. \<not> isdir e])
     @ concat (map (\<lambda>d. walk_process xdirs (root @ [name d]) d)
       [d \<leftarrow> [e \<leftarrow> es. isdir e]. \<not> should_exclude xdirs (name d) True])"

definition find_files_to_process :: "string set \<Rightarrow> fsnode \<Rightarrow> string list" where
  "find_files_to_process xdirs root_dir = sort (map relpath (walk_process xdirs [] root_dir))"

section \<open>Content Reader\<close>

text \<open>
  \<open>open(path).read()\<close> needs the bytes of the file at a path below the root directory:
  an \<open>opener\<close> gives them, or the error that opening the file raises.
\<close>

type_synonym opener = "string \<Rightarrow> oserror + string"

text \<open>The exceptions that reading and writing a text file raise.\<close>

datatype exn = OSError oserror | UnicodeDecodeError | UnicodeEncodeError

text \<open>\<open>str(e)\<close>: the description that the error carries.\<close>

fun strerror :: "oserror \<Rightarrow> string" where
  "strerror (PermissionError d) = d"
| "strerror (FileNotFoundError d) = d"
| "strerror (NotADirectoryError d) = d"
| "strerror (OtherOSError d) = d"

fun exn_str :: "exn \<Rightarrow> string" where
  "exn_str (OSError e) = strerror e"
| "exn_str UnicodeDecodeError = ''codec can't decode bytes''"
| "exn_str UnicodeEncodeError = ''codec can't encode characters''"

text \<open>
  The strict UTF-8 decoder: well-formed sequences only, no overlong forms, no surrogates,
  nothing beyond U+10FFFF. The text is kept in UTF-8, so decoding a valid byte string
  returns it.
\<close>

definition byte_in :: "char \<Rightarrow> nat \<Rightarrow> nat \<Rightarrow> bool" where
  "byte_in c lo hi = (lo \<le> of_char c \<and> (of_char c :: nat) \<le> hi)"

fun utf8_valid :: "string \<Rightarrow> bool" where
  "utf8_valid [] = True"
| "utf8_valid [b] = byte_in b 0x00 0x7F"
| "utf8_valid [b, c1] =
     (if byte_in b 0x00 0x7F then utf8_valid [c1]
      else byte_in b 0xC2 0xDF \<and> byte_in c1 0x80 0xBF)"
| "utf8_valid [b, c1, c2] =
     (if byte_in b 0x00 0x7F then utf8_valid [c1, c2]
      else if byte_in b 0xC2 0xDF then byte_in c1 0x80 0xBF \<and> utf8_valid [c2]
      else (byte_in b 0xE0 0xE0 \<and> byte_in c1 0xA0 0xBF
            \<or> byte_in b 0xE1 0xEC \<and> byte_in c1 0x80 0xBF
            \<or> byte_in b 0xED 0xED \<and> byte_in c1 0x80 0x9F
            \<or> byte_in b 0xEE 0xEF \<and> byte_in c1 0x80 0xBF)
           \<and> byte_in c2 0x80 0xBF)"
| "utf8_valid (b # c1 # c2 # c3 # rest) =
     (if byte_in b 0x00 0x7F then utf8_valid (c1 # c2 # c3 # rest)
      else if byte_in b 0xC2 0xDF then byte_in c1 0x80 0xBF \<and> utf8_valid (c2 # c3 # rest)
      else if byte_in b 0xE0 0xEF
      then (byte_in b 0xE0 0xE0 \<and> byte_in c1 0xA0 0xBF
            \<or> byte_in b 0xE1 0xEC \<and> byte_in c1 0x80 0xBF
            \<or> byte_in b 0xED 0xED \<and> byte_in c1 0x80 0x9F
            \<or> byte_in b 0xEE 0xEF \<and> byte_in c1 0x80 0xBF)
           \<and> byte_in c2 0x80 0xBF \<and> utf8_valid (c3 # rest)
      else (byte_in b 0xF0 0xF0 \<and> byte_in c1 0x90 0xBF
            \<or> byte_in b 0xF1 0xF3 \<and> byte_in c1 0x80 0xBF
            \<or> byte_in b 0xF4 0xF4 \<and> byte_in c1 0x80 0x8F)
           \<and> byte_in c2 0x80 0xBF \<and> byte_in c3 0x80 0xBF \<and> utf8_valid rest)"

text \<open>
  Latin-1 maps every byte to the code point of the same number; in UTF-8 that is the byte
  itself below 128 and two bytes from there on.
\<close>

definition latin1_char :: "char \<Rightarrow> string" where
  "latin1_char b =
     (if (of_char b :: nat) < 128 then [b]
      else [char_of (192 + (of_char b :: nat) div 64), char_of (128 + (of_char b :: nat) mod 64)])"

datatype encoding = UTF8 | Latin1

fun decode :: "encoding \<Rightarrow> string \<Rightarrow> exn + string" where
  "decode UTF8 bytes = (if utf8_valid bytes then Inr bytes else Inl UnicodeDecodeError)"
| "decode Latin1 bytes = Inr (concat (map latin1_char bytes))"

text \<open>
  A file opened in text mode with the default \<open>newline=None\<close>: a carriage return followed
  by a line feed, and a carriage return alone, are read as one line feed.
\<close>

fun universal_newlines :: "string \<Rightarrow> string" where
  "universal_newlines [] = []"
| "universal_newlines [c] = (if c = CHR 0x0D then [CHR 0x0A] else [c])"
| "universal_newlines (c # d # s) =
     (if c = CHR 0x0D
      then (if d = CHR 0x0A then CHR 0x0A # universal_newlines s
            else CHR 0x0A # universal_newlines (d # s))
      else c # universal_newlines (d # s))"

text \<open>\<open>with open(file_path, 'r', encoding=enc) as file: return file.read()\<close>.\<close>

definition open_read :: "opener \<Rightarrow> string \<Rightarrow> encoding \<Rightarrow> exn + string" where
  "open_read fs file_path enc =
     (case fs file_path of
        Inl e \<Rightarrow> Inl (OSError e)
      | Inr bytes \<Rightarrow>
          (case decode enc bytes of
             Inl x \<Rightarrow> Inl x
           | Inr text \<Rightarrow> Inr (universal_newlines text)))"

text \<open>
  \<open>read_file_content\<close>, the same in \<open>generate4llm_script.py\<close> and
  \<open>dev-tools/generate4LLM.py\<close>, with what each \<open>except\<close> clause catches.
\<close>

definition read_file_content :: "opener \<Rightarrow> string \<Rightarrow> exn + string" where
  "read_file_content fs file_path =
     (case open_read fs file_path UTF8 of
        Inr text \<Rightarrow> Inr text
      | Inl UnicodeDecodeError \<Rightarrow>
          (case open_read fs file_path Latin1 of
             Inr text \<Rightarrow> Inr text
           | Inl e \<Rightarrow> Inr (''[Error reading file: '' @ exn_str e @ '']''))
      | Inl e \<Rightarrow> Inr (''[Error reading file: '' @ exn_str e @ '']''))"

text \<open>Files to read: one that is not UTF-8, two that are, and none else that can be opened.\<close>

definition example_opener :: opener where
  "example_opener p =
     (if p = ''logo.bin'' then Inr [CHR 0xFF, CHR 0xFE, CHR 0x00]
      else if p = ''app.py'' then Inr ''print(1)''
      else if p = ''src/b.ts'' then Inr ''export {}''
      else Inl (FileNotFoundError (''[Errno 2] No such file or directory: '' @ p)))"

section \<open>Report Assembler of \<open>generate4llm_script.py\<close>\<close>

text \<open>\<open>s.rfind('.')\<close>: the index of the last dot.\<close>

definition rfind_dot :: "string \<Rightarrow> nat option" where
  "rfind_dot s =
     (if CHR ''.'' \<in> set s
      then Some (length s - Suc (length (takeWhile (\<lambda>c. c \<noteq> CHR ''.'') (rev s))))
      else None)"

text \<open>\<open>s.split('/')\<close>: the components of a path string.\<close>

fun split_path :: "string \<Rightarrow> path" where
  "split_path [] = [[]]"
| "split_path (c # s) =
     (if c = CHR ''/'' then [] # split_path s
      else (case split_path s of [] \<Rightarrow> [[c]] | x # xs \<Rightarrow> (c # x) # xs))"







section \<open>\<open>project-to-gpt.py\<close>\<close>

definition IGNORED_DIRS :: "string set" where
  "IGNORED_DIRS =
     {''node_modules'', ''.git'', ''dist'', ''build'', ''coverage'', ''__pycache__'',
      ''.pytest_cache'', ''venv'', ''env''}"

definition IGNORED_FILES :: "string set" where
  "IGNORED_FILES = {''package-lock.json'', ''project_documentation.md''}"

definition IGNORED_FILE_EXTENSIONS :: "string set" where
  "IGNORED_FILE_EXTENSIONS =
     {''.png'', ''.jpg'', ''.jpeg'', ''.gif'', ''.svg'', ''.ico'',
      ''.ttf'', ''.woff'', ''.woff2'', ''.eot'',
      ''.mp4'', ''.webm'', ''.ogg'',
      ''.pdf'', ''.doc'', ''.docx'',
      ''.zip'', ''.tar'', ''.gz'',
      ''.pyc'', ''.pyo'', ''.pyd'',
      ''.lock''}"

definition LANGUAGE_MAP :: "(string \<times> string) list" where
  "LANGUAGE_MAP =
     [(''.py'', ''python''), (''.js'', ''javascript''), (''.jsx'', ''jsx''),
      (''.ts'', ''typescript''), (''.tsx'', ''tsx''), (''.java'', ''java''), (''.cpp'', ''cpp''),
      (''.c'', ''c''), (''.html'', ''html''), (''.css'', ''css''), (''.scss'', ''scss''),
      (''.md'', ''markdown''), (''.json'', ''json''), (''.yaml'', ''yaml''), (''.yml'', ''yaml''),
      (''.sh'', ''bash''), (''.sql'', ''sql''), (''.rs'', ''rust''), (''.go'', ''go''),
      (''.rb'', ''ruby''), (''.php'', ''php'')]"

text \<open>
  \<open>PurePath.suffix\<close> of a path, from its last component: from the last dot on, when that
  dot is neither the first nor the last character.
\<close>

definition path_suffix :: "path \<Rightarrow> string" where
  "path_suffix p =
     (let nm = basename p
      in case rfind_dot nm of
           None \<Rightarrow> []
         | Some i \<Rightarrow> if 0 < i \<and> i < length nm - 1 then drop i nm else [])"

definition should_process_path :: "(string \<Rightarrow> string) \<Rightarrow> path \<Rightarrow> bool" where
  "should_process_path str_lower p =
     (\<not> startswith (basename p) ''.''
      \<and> basename p \<notin> IGNORED_DIRS
      \<and> str_lower (path_suffix p) \<notin> IGNORED_FILE_EXTENSIONS
      \<and> basename p \<notin> IGNORED_FILES)"

definition get_language_from_path :: "(string \<Rightarrow> string) \<Rightarrow> path \<Rightarrow> string" where
  "get_language_from_path str_lower file_path =
     (case map_of LANGUAGE_MAP (str_lower (path_suffix file_path)) of Some l \<Rightarrow> l | None \<Rightarrow> [])"

text \<open>
  \<open>process_file\<close>: what it writes to the output file. \<open>file_path\<close> is the path below
  \<open>root_path\<close>, and \<open>wr\<close> gives the exception that \<open>output_file.write\<close> raises for a
  text, if it raises one. Both \<open>except\<close> clauses print a message and go on: a file that
  cannot be opened or is not UTF-8 leaves nothing, and a write that fails leaves what was
  written before it.
\<close>

definition process_file ::
  "(string \<Rightarrow> string) \<Rightarrow> opener \<Rightarrow> (string \<Rightarrow> exn option) \<Rightarrow> path \<Rightarrow> string" where
  "process_file str_lower fs wr file_path =
     (let relative_path = relpath file_path;
          language = get_language_from_path str_lower file_path
      in case open_read fs relative_path UTF8 of
           Inl UnicodeDecodeError \<Rightarrow> []
         | Inl e \<Rightarrow> []
         | Inr content \<Rightarrow>
             (let first = newline @ ''file path: '' @ relative_path @ newline @ newline;
                  second = ''```'' @ language @ newline @ content @ newline @ ''```''
              in case wr first of
                   Some x \<Rightarrow> []
                 | None \<Rightarrow> (case wr second of Some x \<Rightarrow> first | None \<Rightarrow> first @ second)))"

text \<open>
  \<open>process_directory\<close>: what it writes to the output file. The entries are sorted as
  paths, which for the entries of one directory is by name. An error of \<open>iterdir\<close> is
  caught, and nothing is written for that directory.
\<close>

fun process_directory ::
  "(string \<Rightarrow> string) \<Rightarrow> opener \<Rightarrow> (string \<Rightarrow> exn option) \<Rightarrow> path \<Rightarrow> fsnode \<Rightarrow> string" where
  "process_directory str_lower fs wr dir_path (File n) = []"
| "process_directory str_lower fs wr dir_path (Dir n (Some e) es) = []"
| "process_directory str_lower fs wr dir_path (Dir n None es) =
     concat (map (\<lambda>entry.
         if \<not> should_process_path str_lower (dir_path @ [name entry]) then []
         else if isdir entry
         then process_directory str_lower fs wr (dir_path @ [name entry]) entry
         else process_file str_lower fs wr (dir_path @ [name entry]))
       (sort_key name es))"

text \<open>
  What the program finds around it: what a path denotes, the bytes of the files below the
  project directory, the error of opening a file for writing if there is one, the
  exception that writing a text to the output file raises if it raises one, the exception
  that closing the output file with a text in it raises if it raises one, and the
  formatted time of day.
\<close>

record world =
  lookup :: "string \<Rightarrow> fsnode option"
  fs_open :: opener
  open_write :: "string \<Rightarrow> oserror option"
  write_error :: "string \<Rightarrow> exn option"
  close_error :: "string \<Rightarrow> exn option"
  now :: string

text \<open>\<open>Path.is_dir\<close>.\<close>

definition is_dir :: "world \<Rightarrow> string \<Rightarrow> bool" where
  "is_dir w p = (case lookup w p of Some d \<Rightarrow> isdir d | None \<Rightarrow> False)"

text \<open>
  \<open>generate_documentation\<close>: the text written to the output file, or the exception that
  leaves the function. Nothing catches an exception of opening the file, of writing the
  header or of closing the file at the end of the \<open>with\<close> block. The directory and the
  bytes are the ones that the walk finds, which starts after the output file is opened.
  \<open>header\<close> is the first text written, with the formatted time of day in it.
\<close>

definition header :: "string \<Rightarrow> string" where
  "header timestamp = ''# Project Documentation'' @ newline @ newline
                      @ ''Generated on: '' @ timestamp @ newline @ newline"

definition generate_documentation ::
  "(string \<Rightarrow> string) \<Rightarrow> world \<Rightarrow> string \<Rightarrow> string \<Rightarrow> exn + string" where
  "generate_documentation str_lower w project_path output_file_path =
     (case open_write w output_file_path of
        Some e \<Rightarrow> Inl (OSError e)
      | None \<Rightarrow>
          (case write_error w (header (now w)) of
             Some x \<Rightarrow> Inl x
           | None \<Rightarrow>
               (let text = header (now w)
                      @ (case lookup w project_path of
                           Some d \<Rightarrow> process_directory str_lower (fs_open w) (write_error w) [] d
                         | None \<Rightarrow> [])
                in case close_error w text of
                     Some x \<Rightarrow> Inl x
                   | None \<Rightarrow> Inr text)))"

text \<open>
  How the process ends: its exit status, and the output file with the text written to it
  when the report is complete. A function that returns ends the process with status 0, an
  exception that nothing catches with status 1.
\<close>

record outcome =
  exit_code :: nat
  written :: "(string \<times> string) option"

text \<open>
  What \<open>parser.parse_args()\<close> does with the command line: it leaves the process with a
  status (2 for arguments it refuses, 0 after \<open>--help\<close>), or it returns the project path
  and the output file, each the argument given or its default. The paths are taken as
  resolved.
\<close>

datatype parsed = ParserExit nat | Args string string

text \<open>\<open>main\<close>.\<close>

definition main :: "(string \<Rightarrow> string) \<Rightarrow> world \<Rightarrow> parsed \<Rightarrow> outcome" where
  "main str_lower w args =
     (case args of
        ParserExit status \<Rightarrow> \<lparr>exit_code = status, written = None\<rparr>
      | Args project_path output_file_path \<Rightarrow>
          if \<not> is_dir w project_path
          then \<lparr>exit_code = 0, written = None\<rparr>
          else (case generate_documentation str_lower w project_path output_file_path of
                  Inl e \<Rightarrow> \<lparr>exit_code = 1, written = None\<rparr>
                | Inr text \<Rightarrow> \<lparr>exit_code = 0, written = Some (output_file_path, text)\<rparr>))"

text \<open>A project directory used to run the functions on.\<close>

definition example_tree :: fsnode where
  "example_tree =
     Dir ''proj'' None
       [File ''package-lock.json'', File ''utils.py'', File ''.env.example'', File ''debug.log'',
        Dir ''node_modules'' None [File ''index.js''],
        Dir ''src'' None [File ''b.ts'', File ''App.tsx'', File ''notes.txt'',
          Dir ''build'' None [File ''out.js'']],
        File ''app.py'',
        Dir ''secret'' (Some (PermissionError ''[Errno 13] Permission denied'')) [File ''main.py'']]"


text \<open>
  A world in which \<open>/proj\<close> is the project directory above, nothing else exists but its
  file \<open>app.py\<close>, the output file \<open>/readonly/out.md\<close> cannot be opened, and writing never
  fails; and the same world at a later time, with the directory listed in the other order.
\<close>

definition example_world :: world where
  "example_world =
     \<lparr>lookup = (\<lambda>p. if p = ''/proj'' then Some example_tree
                     else if p = ''/proj/app.py'' then Some (File ''app.py'')
                     else None),
      fs_open = example_opener,
      open_write = (\<lambda>p. if p = ''/readonly/out.md''
                         then Some (PermissionError ''[Errno 13] Permission denied'') else None),
      write_error = (\<lambda>text. None),
      close_error = (\<lambda>text. None),
      now = ''2024-01-01 00:00:00''\<rparr>"


section \<open>Well-formed trees and path strings\<close>

text \<open>
  What every directory guarantees: the names of its entries are pairwise different, not
  empty, and free of the separator.
\<close>

definition valid_name :: "string \<Rightarrow> bool" where
  "valid_name n = (n \<noteq> [] \<and> CHR ''/'' \<notin> set n)"

fun wf_tree :: "fsnode \<Rightarrow> bool" where
  "wf_tree (File n) = True"
| "wf_tree (Dir n f es) =
     (distinct (map name es) \<and> (\<forall>e \<in> set es. valid_name (name e) \<and> wf_tree e))"

text \<open>A directory whose listing order is not the order of the rendering.\<close>

definition small_tree :: fsnode where
  "small_tree =
     Dir ''p'' None
       [File ''b.txt'', File ''A.txt'', Dir ''z'' None [], Dir ''Y'' None [File ''q'']]"

section \<open>The rendering of a directory's children, as specified\<close>

text \<open>
  The specification of one level of the tree, in its own words: the shown children in some
  order \<open>items\<close> that puts every directory before every file and is ascending in the
  lower-cased name within each group; one line per child, made of the indentation
  \<open>prefix\<close>, the glyph of a last or a non-last sibling, the name and a line feed; after the
  line of a directory, the rendering \<open>render_sub\<close> of that directory under the extended
  indentation.
\<close>

definition rendered_as_specified ::
  "(string \<Rightarrow> string) \<Rightarrow> (fsnode \<Rightarrow> string \<Rightarrow> bool \<Rightarrow> oserror + string) \<Rightarrow> fsnode list \<Rightarrow> string \<Rightarrow> string \<Rightarrow> bool" where
  "rendered_as_specified str_lower render_sub shown prefix out =
     (\<exists>items subs.
        mset items = mset shown \<and> length subs = length items
      \<and> (\<forall>i j. i < j \<and> j < length items \<and> isdir (items ! j) \<longrightarrow> isdir (items ! i))
      \<and> (\<forall>i j. i < j \<and> j < length items \<and> isdir (items ! i) = isdir (items ! j)
            \<longrightarrow> str_lower (name (items ! i)) \<le> str_lower (name (items ! j)))
      \<and> (\<forall>i < length items.
            if isdir (items ! i)
            then render_sub (items ! i)
                   (prefix @ (if i = length items - 1 then space_indent else pipe_indent))
                   (i = length items - 1) = Inr (subs ! i)
            else subs ! i = [])
      \<and> out = concat (map (\<lambda>i. prefix
                 @ (if i = length items - 1 then branch_last else branch_mid)
                 @ name (items ! i) @ newline @ subs ! i) [0..<length items]))"

section \<open>Listing order\<close>






section \<open>Properties of the Path Filter\<close>

lemma should_exclude_file_iff:
  "should_exclude xdirs nm False \<longleftrightarrow> nm \<in> exclude_files_dev"
  by (simp add: should_exclude_def)

lemma should_exclude_from_tree_file_iff:
  "should_exclude_from_tree nm False \<longleftrightarrow> nm \<in> exclude_files \<or> startswith nm ''.''"
  by (simp add: should_exclude_from_tree_def)

text \<open>
  C1. The file-exclusion check is claimed to hold also for a name that matches a wildcard
  entry \<open>*.ext\<close> of the exclusion set by suffix, so that \<open>debug.log\<close> is excluded by
  \<open>*.log\<close>. Both variants test plain membership in the set: \<open>debug.log\<close> ends with
  the \<open>.log\<close> of the entry \<open>*.log\<close>, is not hidden, and is excluded by neither
  \<open>should_exclude\<close> nor \<open>should_exclude_from_tree\<close>, although \<open>should_include_file\<close>
  interprets the same kind of entry as a suffix pattern.
\<close>

theorem wildcard_exclusion_not_applied:
  "''*.log'' \<in> exclude_files \<and> ''*.log'' \<in> exclude_files_dev
   \<and> endswith ''debug.log'' (drop 1 ''*.log'')
   \<and> \<not> should_exclude exclude_dirs ''debug.log'' False
   \<and> \<not> should_exclude_from_tree ''debug.log'' False
   \<and> include_loop ''debug.log'' [''*.log'']"
  by (simp add: should_exclude_def should_exclude_from_tree_def exclude_files_def
      exclude_files_dev_def endswith_def startswith_def)

section \<open>Properties of the File Collector\<close>

lemma split_path_nonempty: "split_path s \<noteq> []"
  by (induction s) (auto split: list.splits)

lemma split_path_noslash: "CHR ''/'' \<notin> set c \<Longrightarrow> split_path (c @ s) = (case split_path s of x # xs \<Rightarrow> (c @ x) # xs | [] \<Rightarrow> [c])"
  by (induction c) (auto split: list.splits simp: split_path_nonempty)

lemma split_path_single: "CHR ''/'' \<notin> set c \<Longrightarrow> split_path c = [c]"
  using split_path_noslash[of c "[]"] by simp

lemma split_relpath:
  "q \<noteq> [] \<Longrightarrow> \<forall>c \<in> set q. CHR ''/'' \<notin> set c \<Longrightarrow> split_path (relpath q) = q"
proof (induction q rule: relpath.induct)
  case 1
  then show ?case by simp
next
  case (2 c)
  then show ?case by (simp add: split_path_single)
next
  case (3 c v va)
  then show ?case by (simp add: split_path_noslash)
qed

lemma basename_append [simp]: "basename (root @ [f]) = f"
  by (simp add: basename_def)

lemma should_include_file_last: "should_include_file (root @ [f]) = should_include_file [f]"
  by (simp add: should_include_file_def basename_def)

lemma walk_include_shape:
  "p \<in> set (walk_include root t) \<Longrightarrow>
   \<exists>ds f. p = root @ ds @ [f] \<and> (\<forall>d \<in> set ds. d \<notin> exclude_dirs)
     \<and> \<not> should_exclude_from_tree f False \<and> should_include_file [f]"
proof (induction root t arbitrary: p rule: walk_include.induct)
  case (1 root n)
  then show ?case by simp
next
  case (2 root n e es)
  then show ?case by simp
next
  case (3 root n es)
  from "3.prems" consider
    (isfile) fl where "fl \<in> set es" "\<not> isdir fl" "\<not> should_exclude_from_tree (name fl) False"
      "should_include_file (root @ [name fl])" "p = root @ [name fl]"
  | (subdir) d where "d \<in> set es" "isdir d" "\<not> should_exclude_from_tree (name d) True"
      "p \<in> set (walk_include (root @ [name d]) d)"
    by (auto split: if_splits)
  then show ?case
  proof cases
    case isfile
    then show ?thesis
      by (intro exI[of _ "[]"] exI[of _ "name fl"]) (simp add: should_include_file_last)
  next
    case subdir
    from "3.IH"[of d p] subdir obtain ds f where
      "p = (root @ [name d]) @ ds @ [f]" "\<forall>d \<in> set ds. d \<notin> exclude_dirs"
      "\<not> should_exclude_from_tree f False" "should_include_file [f]"
      by auto
    moreover have "name d \<notin> exclude_dirs"
      using subdir(3) by (simp add: should_exclude_from_tree_def)
    ultimately show ?thesis
      by (intro exI[of _ "name d # ds"] exI[of _ f]) simp
  qed
qed

lemma walk_include_names:
  "wf_tree t \<Longrightarrow> p \<in> set (walk_include root t) \<Longrightarrow>
   \<exists>q. p = root @ q \<and> q \<noteq> [] \<and> (\<forall>c \<in> set q. valid_name c)"
proof (induction root t arbitrary: p rule: walk_include.induct)
  case (1 root n)
  then show ?case by simp
next
  case (2 root n e es)
  then show ?case by simp
next
  case (3 root n es)
  from "3.prems"(2) consider
    (isfile) fl where "fl \<in> set es" "p = root @ [name fl]"
  | (subdir) d where "d \<in> set es" "isdir d" "\<not> should_exclude_from_tree (name d) True"
      "p \<in> set (walk_include (root @ [name d]) d)"
    by (auto split: if_splits)
  then show ?case
  proof cases
    case isfile
    then show ?thesis using "3.prems"(1) by auto
  next
    case subdir
    have "wf_tree d" "valid_name (name d)" using subdir(1) "3.prems"(1) by auto
    from "3.IH"[of d p] subdir this obtain q where
      "p = (root @ [name d]) @ q" "q \<noteq> []" "\<forall>c \<in> set q. valid_name c"
      by auto
    then show ?thesis using \<open>valid_name (name d)\<close>
      by (intro exI[of _ "name d # q"]) simp
  qed
qed


lemma concat_map_if_singleton:
  "concat (map (\<lambda>x. if P x then [] else if Q x then [h x] else []) xs)
   = map h (filter (\<lambda>x. \<not> P x \<and> Q x) xs)"
  by (induction xs) auto

lemma distinct_concat_tagged:
  "distinct (map k xs) \<Longrightarrow> (\<forall>x \<in> set xs. distinct (f x)) \<Longrightarrow>
   (\<forall>x \<in> set xs. \<forall>y \<in> set (f x). tag y = k x) \<Longrightarrow> distinct (concat (map f xs))"
proof (induction xs)
  case Nil
  then show ?case by simp
next
  case (Cons a xs)
  have "set (f a) \<inter> (\<Union>x \<in> set xs. set (f x)) = {}"
  proof (rule ccontr)
    assume "\<not> ?thesis"
    then obtain y x where "y \<in> set (f a)" "x \<in> set xs" "y \<in> set (f x)" by auto
    then have "k a = k x" using Cons.prems(3) by (metis list.set_intros(1,2))
    then show False using Cons.prems(1) \<open>x \<in> set xs\<close> by auto
  qed
  then show ?case using Cons by auto
qed

lemma distinct_map_filter_name:
  "distinct (map name es) \<Longrightarrow> distinct (map (\<lambda>e. root @ [name e]) (filter P es))"
  by (induction es) auto

lemma walk_include_distinct: "wf_tree t \<Longrightarrow> distinct (walk_include root t)"
proof (induction root t rule: walk_include.induct)
  case (1 root n)
  then show ?case by simp
next
  case (2 root n e es)
  then show ?case by simp
next
  case (3 root n es)
  let ?files = "[e \<leftarrow> es. \<not> isdir e]"
  let ?dirs = "[d \<leftarrow> [e \<leftarrow> es. isdir e]. \<not> should_exclude_from_tree (name d) True]"
  let ?A = "concat (map (\<lambda>fl.
         if should_exclude_from_tree (name fl) False then []
         else if should_include_file (root @ [name fl]) then [root @ [name fl]] else []) ?files)"
  let ?B = "concat (map (\<lambda>d. walk_include (root @ [name d]) d) ?dirs)"
  have dn: "distinct (map name es)" and wfe: "\<forall>e \<in> set es. valid_name (name e) \<and> wf_tree e"
    using "3.prems" by auto
  have A: "?A = map (\<lambda>e. root @ [name e])
      (filter (\<lambda>x. \<not> should_exclude_from_tree (name x) False \<and> should_include_file (root @ [name x])) ?files)"
    by (rule concat_map_if_singleton)
  have dA: "distinct ?A"
    unfolding A filter_filter by (rule distinct_map_filter_name[OF dn])
  have lenA: "\<forall>p \<in> set ?A. length p = Suc (length root)"
    unfolding A by auto
  have subshape: "\<forall>d \<in> set ?dirs. \<forall>p \<in> set (walk_include (root @ [name d]) d).
      p ! length root = name d \<and> Suc (length root) < length p"
  proof (intro ballI)
    fix d p assume d: "d \<in> set ?dirs" and p: "p \<in> set (walk_include (root @ [name d]) d)"
    then have "wf_tree d" using wfe by auto
    from walk_include_names[OF this p] obtain q where "p = (root @ [name d]) @ q" "q \<noteq> []"
      by auto
    then show "p ! length root = name d \<and> Suc (length root) < length p"
      by (auto simp: nth_append)
  qed
  have dB: "distinct ?B"
  proof (rule distinct_concat_tagged[where k = name and tag = "\<lambda>p. p ! length root"])
    show "distinct (map name ?dirs)" using dn by (simp add: distinct_map_filter)
    show "\<forall>x \<in> set ?dirs. distinct (walk_include (root @ [name x]) x)"
      using "3.IH" wfe by auto
    show "\<forall>x \<in> set ?dirs. \<forall>y \<in> set (walk_include (root @ [name x]) x). y ! length root = name x"
      using subshape by blast
  qed
  have "set ?A \<inter> set ?B = {}"
  proof (rule ccontr)
    assume "set ?A \<inter> set ?B \<noteq> {}"
    then obtain p where pA: "p \<in> set ?A" and pB: "p \<in> set ?B" by blast
    from pB obtain d where "d \<in> set ?dirs" "p \<in> set (walk_include (root @ [name d]) d)"
      by auto
    then have "Suc (length root) < length p" using subshape by blast
    then show False using lenA pA by auto
  qed
  then have "distinct (?A @ ?B)" using dA dB by simp
  then show ?case by simp
qed

lemma relpath_inj:
  "p \<noteq> [] \<Longrightarrow> q \<noteq> [] \<Longrightarrow> \<forall>c \<in> set p. valid_name c \<Longrightarrow> \<forall>c \<in> set q. valid_name c \<Longrightarrow>
   relpath p = relpath q \<Longrightarrow> p = q"
  by (metis split_relpath valid_name_def)

lemma find_files_to_include_distinct:
  assumes "wf_tree t"
  shows "distinct (find_files_to_include t)"
proof -
  have "inj_on relpath (set (walk_include [] t))"
  proof (rule inj_onI)
    fix p q assume "p \<in> set (walk_include [] t)" "q \<in> set (walk_include [] t)" "relpath p = relpath q"
    then show "p = q"
      using walk_include_names[OF assms, where p = p and root = "[]"]
        walk_include_names[OF assms, where p = q and root = "[]"]
      by (auto intro: relpath_inj)
  qed
  then show ?thesis
    unfolding find_files_to_include_def
    by (simp add: distinct_map walk_include_distinct[OF assms])
qed

lemma walk_process_shape:
  "p \<in> set (walk_process xdirs root t) \<Longrightarrow>
   \<exists>ds f. p = root @ ds @ [f] \<and> (\<forall>d \<in> set ds. d \<notin> xdirs)
     \<and> \<not> should_exclude xdirs f False \<and> should_include_file [f]"
proof (induction xdirs root t arbitrary: p rule: walk_process.induct)
  case (1 xdirs root n)
  then show ?case by simp
next
  case (2 xdirs root n e es)
  then show ?case by simp
next
  case (3 xdirs root n es)
  from "3.prems" consider
    (isfile) fl where "fl \<in> set es" "\<not> isdir fl" "\<not> should_exclude xdirs (name fl) False"
      "should_include_file (root @ [name fl])" "p = root @ [name fl]"
  | (subdir) d where "d \<in> set es" "isdir d" "\<not> should_exclude xdirs (name d) True"
      "p \<in> set (walk_process xdirs (root @ [name d]) d)"
    by (auto split: if_splits)
  then show ?case
  proof cases
    case isfile
    then show ?thesis
      by (intro exI[of _ "[]"] exI[of _ "name fl"]) (simp add: should_include_file_last)
  next
    case subdir
    from "3.IH"[of d p] subdir obtain ds f where
      "p = (root @ [name d]) @ ds @ [f]" "\<forall>d \<in> set ds. d \<notin> xdirs"
      "\<not> should_exclude xdirs f False" "should_include_file [f]"
      by auto
    moreover have "name d \<notin> xdirs"
      using subdir(3) by (simp add: should_exclude_def)
    ultimately show ?thesis
      by (intro exI[of _ "name d # ds"] exI[of _ f]) simp
  qed
qed

lemma walk_process_names:
  "wf_tree t \<Longrightarrow> p \<in> set (walk_process xdirs root t) \<Longrightarrow>
   \<exists>q. p = root @ q \<and> q \<noteq> [] \<and> (\<forall>c \<in> set q. valid_name c)"
proof (induction xdirs root t arbitrary: p rule: walk_process.induct)
  case (1 xdirs root n)
  then show ?case by simp
next
  case (2 xdirs root n e es)
  then show ?case by simp
next
  case (3 xdirs root n es)
  from "3.prems"(2) consider
    (isfile) fl where "fl \<in> set es" "p = root @ [name fl]"
  | (subdir) d where "d \<in> set es" "isdir d" "\<not> should_exclude xdirs (name d) True"
      "p \<in> set (walk_process xdirs (root @ [name d]) d)"
    by (auto split: if_splits)
  then show ?case
  proof cases
    case isfile
    then show ?thesis using "3.prems"(1) by auto
  next
    case subdir
    have "wf_tree d" "valid_name (name d)" using subdir(1) "3.prems"(1) by auto
    from "3.IH"[of d p] subdir this obtain q where
      "p = (root @ [name d]) @ q" "q \<noteq> []" "\<forall>c \<in> set q. valid_name c"
      by auto
    then show ?thesis using \<open>valid_name (name d)\<close>
      by (intro exI[of _ "name d # q"]) simp
  qed
qed


lemma walk_process_distinct: "wf_tree t \<Longrightarrow> distinct (walk_process xdirs root t)"
proof (induction xdirs root t rule: walk_process.induct)
  case (1 xdirs root n)
  then show ?case by simp
next
  case (2 xdirs root n e es)
  then show ?case by simp
next
  case (3 xdirs root n es)
  let ?files = "[e \<leftarrow> es. \<not> isdir e]"
  let ?dirs = "[d \<leftarrow> [e \<leftarrow> es. isdir e]. \<not> should_exclude xdirs (name d) True]"
  let ?A = "concat (map (\<lambda>fl.
         if should_exclude xdirs (name fl) False then []
         else if should_include_file (root @ [name fl]) then [root @ [name fl]] else []) ?files)"
  let ?B = "concat (map (\<lambda>d. walk_process xdirs (root @ [name d]) d) ?dirs)"
  have dn: "distinct (map name es)" and wfe: "\<forall>e \<in> set es. valid_name (name e) \<and> wf_tree e"
    using "3.prems" by auto
  have A: "?A = map (\<lambda>e. root @ [name e])
      (filter (\<lambda>x. \<not> should_exclude xdirs (name x) False \<and> should_include_file (root @ [name x])) ?files)"
    by (rule concat_map_if_singleton)
  have dA: "distinct ?A"
    unfolding A filter_filter by (rule distinct_map_filter_name[OF dn])
  have lenA: "\<forall>p \<in> set ?A. length p = Suc (length root)"
    unfolding A by auto
  have subshape: "\<forall>d \<in> set ?dirs. \<forall>p \<in> set (walk_process xdirs (root @ [name d]) d).
      p ! length root = name d \<and> Suc (length root) < length p"
  proof (intro ballI)
    fix d p assume d: "d \<in> set ?dirs" and p: "p \<in> set (walk_process xdirs (root @ [name d]) d)"
    then have "wf_tree d" using wfe by auto
    from walk_process_names[OF this p] obtain q where "p = (root @ [name d]) @ q" "q \<noteq> []"
      by auto
    then show "p ! length root = name d \<and> Suc (length root) < length p"
      by (auto simp: nth_append)
  qed
  have dB: "distinct ?B"
  proof (rule distinct_concat_tagged[where k = name and tag = "\<lambda>p. p ! length root"])
    show "distinct (map name ?dirs)" using dn by (simp add: distinct_map_filter)
    show "\<forall>x \<in> set ?dirs. distinct (walk_process xdirs (root @ [name x]) x)"
      using "3.IH" wfe by auto
    show "\<forall>x \<in> set ?dirs. \<forall>y \<in> set (walk_process xdirs (root @ [name x]) x). y ! length root = name x"
      using subshape by blast
  qed
  have "set ?A \<inter> set ?B = {}"
  proof (rule ccontr)
    assume "set ?A \<inter> set ?B \<noteq> {}"
    then obtain p where pA: "p \<in> set ?A" and pB: "p \<in> set ?B" by blast
    from pB obtain d where "d \<in> set ?dirs" "p \<in> set (walk_process xdirs (root @ [name d]) d)"
      by auto
    then have "Suc (length root) < length p" using subshape by blast
    then show False using lenA pA by auto
  qed
  then have "distinct (?A @ ?B)" using dA dB by simp
  then show ?case by simp
qed

lemma find_files_to_process_distinct:
  assumes "wf_tree t"
  shows "distinct (find_files_to_process xdirs t)"
proof -
  have "inj_on relpath (set (walk_process xdirs [] t))"
  proof (rule inj_onI)
    fix p q assume "p \<in> set (walk_process xdirs [] t)" "q \<in> set (walk_process xdirs [] t)" "relpath p = relpath q"
    then show "p = q"
      using walk_process_names[OF assms, where p = p and root = "[]" and xdirs = xdirs]
        walk_process_names[OF assms, where p = q and root = "[]" and xdirs = xdirs]
      by (auto intro: relpath_inj)
  qed
  then show ?thesis
    unfolding find_files_to_process_def
    by (simp add: distinct_map walk_process_distinct[OF assms])
qed


lemma find_files_to_include_elem:
  assumes "wf_tree t" "p \<in> set (find_files_to_include t)"
  shows "\<exists>ds f. split_path p = ds @ [f] \<and> (\<forall>d \<in> set ds. d \<notin> exclude_dirs)
     \<and> \<not> should_exclude_from_tree f False \<and> should_include_file [f]"
proof -
  from assms(2) obtain q where q: "q \<in> set (walk_include [] t)" and p: "p = relpath q"
    by (auto simp: find_files_to_include_def)
  from walk_include_names[OF assms(1) q] have "q \<noteq> []" "\<forall>c \<in> set q. CHR ''/'' \<notin> set c"
    by (auto simp: valid_name_def)
  then have "split_path p = q" unfolding p by (rule split_relpath)
  then show ?thesis using walk_include_shape[OF q] by simp
qed

lemma find_files_to_process_elem:
  assumes "wf_tree t" "p \<in> set (find_files_to_process xdirs t)"
  shows "\<exists>ds f. split_path p = ds @ [f] \<and> (\<forall>d \<in> set ds. d \<notin> xdirs)
     \<and> \<not> should_exclude xdirs f False \<and> should_include_file [f]"
proof -
  from assms(2) obtain q where q: "q \<in> set (walk_process xdirs [] t)" and p: "p = relpath q"
    by (auto simp: find_files_to_process_def)
  from walk_process_names[OF assms(1) q] have "q \<noteq> []" "\<forall>c \<in> set q. CHR ''/'' \<notin> set c"
    by (auto simp: valid_name_def)
  then have "split_path p = q" unfolding p by (rule split_relpath)
  then show ?thesis using walk_process_shape[OF q] by simp
qed

lemma example_tree_wf: "wf_tree example_tree"
  by code_simp

lemma example_tree_include: "find_files_to_include example_tree = [''app.py'', ''src/App.tsx'', ''src/b.ts'', ''utils.py'']"
  by code_simp

lemma example_tree_process: "find_files_to_process exclude_dirs example_tree = [''.env.example'', ''app.py'', ''src/App.tsx'', ''src/b.ts'', ''utils.py'']"
  by code_simp


text \<open>
  C2. In both collectors the exclusion check comes before the inclusion check: no path
  they return has an excluded file name, whatever the include list says. The name
  \<open>package-lock.json\<close> matches the include pattern \<open>*.json\<close> and is excluded by both
  variants.
\<close>

theorem excluded_files_never_collected:
  assumes "wf_tree t"
  shows "(\<forall>p \<in> set (find_files_to_include t).
            \<not> should_exclude_from_tree (basename (split_path p)) False)
       \<and> (\<forall>p \<in> set (find_files_to_process xdirs t).
            \<not> should_exclude xdirs (basename (split_path p)) False)
       \<and> should_include_file [''package-lock.json'']
       \<and> should_exclude_from_tree ''package-lock.json'' False
       \<and> should_exclude xdirs ''package-lock.json'' False"
proof -
  have a: "\<forall>p \<in> set (find_files_to_include t).
            \<not> should_exclude_from_tree (basename (split_path p)) False"
    using find_files_to_include_elem[OF assms] by (fastforce simp: basename_def)
  have b: "\<forall>p \<in> set (find_files_to_process xdirs t).
            \<not> should_exclude xdirs (basename (split_path p)) False"
    using find_files_to_process_elem[OF assms] by (fastforce simp: basename_def)
  have c: "should_include_file [''package-lock.json'']"
    by (simp add: should_include_file_def basename_def include_files_def startswith_def endswith_def)
  have d: "should_exclude_from_tree ''package-lock.json'' False"
    by (simp add: should_exclude_from_tree_def exclude_files_def)
  have e: "should_exclude xdirs ''package-lock.json'' False"
    by (simp add: should_exclude_def exclude_files_dev_def)
  from a b c d e show ?thesis by blast
qed

theorem excluded_files_never_collected_witness:
  "wf_tree example_tree
   \<and> ''src/b.ts'' \<in> set (find_files_to_include example_tree)
   \<and> \<not> should_exclude_from_tree (basename (split_path ''src/b.ts'')) False
   \<and> ''.env.example'' \<in> set (find_files_to_process exclude_dirs example_tree)
   \<and> \<not> should_exclude exclude_dirs (basename (split_path ''.env.example'')) False
   \<and> ''package-lock.json'' \<notin> set (find_files_to_include example_tree)
   \<and> ''package-lock.json'' \<notin> set (find_files_to_process exclude_dirs example_tree)"
proof -
  have a: "''src/b.ts'' \<in> set (find_files_to_include example_tree)"
    by (simp add: example_tree_include)
  have b: "''.env.example'' \<in> set (find_files_to_process exclude_dirs example_tree)"
    by (simp add: example_tree_process)
  have c: "''package-lock.json'' \<notin> set (find_files_to_include example_tree)"
    by (simp add: example_tree_include)
  have d: "''package-lock.json'' \<notin> set (find_files_to_process exclude_dirs example_tree)"
    by (simp add: example_tree_process)
  show ?thesis
    using excluded_files_never_collected[OF example_tree_wf, of exclude_dirs]
      example_tree_wf a b c d
    by blast
qed

text \<open>
  C5. No path returned by either collector has an ancestor directory whose name is in the
  directory-exclusion set: the walk removes the excluded sub-directories before it
  descends, so a file below one is never reached, whatever its name.
\<close>

theorem collector_skips_excluded_dirs:
  assumes "wf_tree t"
  shows "(\<forall>p \<in> set (find_files_to_include t).
            \<forall>d \<in> set (butlast (split_path p)). d \<notin> exclude_dirs)
       \<and> (\<forall>p \<in> set (find_files_to_process xdirs t).
            \<forall>d \<in> set (butlast (split_path p)). d \<notin> xdirs)"
proof -
  have a: "\<forall>p \<in> set (find_files_to_include t).
            \<forall>d \<in> set (butlast (split_path p)). d \<notin> exclude_dirs"
    using find_files_to_include_elem[OF assms] by fastforce
  have b: "\<forall>p \<in> set (find_files_to_process xdirs t).
            \<forall>d \<in> set (butlast (split_path p)). d \<notin> xdirs"
    using find_files_to_process_elem[OF assms] by fastforce
  from a b show ?thesis by blast
qed

theorem collector_skips_excluded_dirs_witness:
  "wf_tree example_tree
   \<and> ''node_modules'' \<in> exclude_dirs \<and> should_include_file [''node_modules'', ''index.js'']
   \<and> ''src/b.ts'' \<in> set (find_files_to_include example_tree)
   \<and> ''src'' \<in> set (butlast (split_path ''src/b.ts'')) \<and> ''src'' \<notin> exclude_dirs
   \<and> ''src/b.ts'' \<in> set (find_files_to_process exclude_dirs example_tree)
   \<and> ''node_modules/index.js'' \<notin> set (find_files_to_include example_tree)
   \<and> ''node_modules/index.js'' \<notin> set (find_files_to_process exclude_dirs example_tree)"
proof -
  have a: "''node_modules'' \<in> exclude_dirs"
    by (simp add: exclude_dirs_def)
  have b: "should_include_file [''node_modules'', ''index.js'']"
    by (simp add: should_include_file_def basename_def include_files_def startswith_def endswith_def)
  have c: "''src/b.ts'' \<in> set (find_files_to_include example_tree)"
    by (simp add: example_tree_include)
  have d: "''src'' \<in> set (butlast (split_path ''src/b.ts''))"
    by simp
  have e: "''src/b.ts'' \<in> set (find_files_to_process exclude_dirs example_tree)"
    by (simp add: example_tree_process)
  have f: "''node_modules/index.js'' \<notin> set (find_files_to_include example_tree)"
    by (simp add: example_tree_include)
  have g: "''node_modules/index.js'' \<notin> set (find_files_to_process exclude_dirs example_tree)"
    by (simp add: example_tree_process)
  show ?thesis
    using collector_skips_excluded_dirs[OF example_tree_wf, of exclude_dirs]
      example_tree_wf a b c d e f g
    by blast
qed

text \<open>
  C6. The list returned by either collector is sorted in ascending order of the relative
  path strings and has no duplicates.
\<close>

theorem collector_sorted_distinct:
  assumes "wf_tree t"
  shows "sorted (find_files_to_include t) \<and> distinct (find_files_to_include t)
       \<and> sorted (find_files_to_process xdirs t) \<and> distinct (find_files_to_process xdirs t)"
  using find_files_to_include_distinct[OF assms] find_files_to_process_distinct[OF assms]
  by (simp add: find_files_to_include_def find_files_to_process_def)

theorem collector_sorted_distinct_witness:
  "wf_tree example_tree
   \<and> find_files_to_include example_tree = [''app.py'', ''src/App.tsx'', ''src/b.ts'', ''utils.py'']
   \<and> sorted (find_files_to_include example_tree) \<and> distinct (find_files_to_include example_tree)
   \<and> sorted (find_files_to_process exclude_dirs example_tree)
   \<and> distinct (find_files_to_process exclude_dirs example_tree)"
  using collector_sorted_distinct[OF example_tree_wf, of exclude_dirs]
    example_tree_wf example_tree_include
  by blast

text \<open>
  C10. In \<open>generate4llm_script.py\<close>, whose file-exclusion check excludes every name with a
  leading dot, the collector never returns a path whose last component is
  \<open>.env.example\<close>, although that name is an entry of the include list and
  \<open>should_include_file\<close> accepts it.
\<close>

theorem env_example_never_collected:
  assumes "wf_tree t"
  shows "''.env.example'' \<in> set include_files \<and> should_include_file [''.env.example'']
       \<and> (\<forall>p \<in> set (find_files_to_include t). basename (split_path p) \<noteq> ''.env.example'')"
proof -
  have a: "''.env.example'' \<in> set include_files"
    by (simp add: include_files_def)
  have b: "should_include_file [''.env.example'']"
    by (simp add: should_include_file_def basename_def include_files_def startswith_def endswith_def)
  have c: "should_exclude_from_tree ''.env.example'' False"
    by (simp add: should_exclude_from_tree_def startswith_def)
  have "\<forall>p \<in> set (find_files_to_include t). basename (split_path p) \<noteq> ''.env.example''"
  proof
    fix p assume "p \<in> set (find_files_to_include t)"
    from find_files_to_include_elem[OF assms this] obtain ds f where
      "split_path p = ds @ [f]" "\<not> should_exclude_from_tree f False"
      by blast
    then show "basename (split_path p) \<noteq> ''.env.example''"
      using c by (auto simp: basename_def)
  qed
  with a b show ?thesis by blast
qed

theorem env_example_never_collected_witness:
  "wf_tree example_tree \<and> File ''.env.example'' \<in> set (entries example_tree)
   \<and> ''app.py'' \<in> set (find_files_to_include example_tree)
   \<and> basename (split_path ''app.py'') \<noteq> ''.env.example''
   \<and> ''.env.example'' \<notin> set (find_files_to_include example_tree)
   \<and> ''.env.example'' \<in> set include_files"
proof -
  have a: "File ''.env.example'' \<in> set (entries example_tree)"
    by (simp add: example_tree_def)
  have b: "''app.py'' \<in> set (find_files_to_include example_tree)"
    by (simp add: example_tree_include)
  have c: "''.env.example'' \<notin> set (find_files_to_include example_tree)"
    by (simp add: example_tree_include)
  show ?thesis
    using env_example_never_collected[OF example_tree_wf] example_tree_wf a b c
    by blast
qed

section \<open>Properties of the Tree Renderer\<close>

lemma seq_concat_map_Inr:
  "seq_concat (map f xs) = Inr out \<Longrightarrow>
   (\<forall>x \<in> set xs. \<exists>s. f x = Inr s) \<and> out = concat (map (\<lambda>x. projr (f x)) xs)"
  by (induction xs arbitrary: out) (auto split: sum.splits)

lemma enumerate_as_map: "enumerate 0 xs = map (\<lambda>i. (i, xs ! i)) [0..<length xs]"
  by (rule nth_equalityI) (simp_all add: nth_enumerate_eq)

lemma sort_key_dirs_first:
  assumes "items = sort_key (\<lambda>x. (\<not> isdir x, str_lower (name x))) shown"
    and "i < j" "j < length items"
  shows "(isdir (items ! j) \<longrightarrow> isdir (items ! i))
       \<and> (isdir (items ! i) = isdir (items ! j) \<longrightarrow> str_lower (name (items ! i)) \<le> str_lower (name (items ! j)))"
proof -
  let ?key = "\<lambda>x. (\<not> isdir x, str_lower (name x))"
  have "sorted (map ?key items)" unfolding assms(1) by (rule sorted_sort_key)
  then have "?key (items ! i) \<le> ?key (items ! j)"
    using assms(2,3) by (simp add: sorted_iff_nth_mono)
  then show ?thesis by (auto simp: less_eq_prod_def)
qed

lemma loop_rendered:
  assumes items: "items = sort_key (\<lambda>x. (\<not> isdir x, str_lower (name x))) shown"
    and run: "seq_concat (map (\<lambda>(i, item).
        case (if isdir item
              then R item (prefix @ (if i = length items - 1 then space_indent else pipe_indent))
                     (i = length items - 1)
              else Inr [])
        of Inl e \<Rightarrow> Inl e
         | Inr sub \<Rightarrow> Inr (prefix @ (if i = length items - 1 then branch_last else branch_mid)
                          @ name item @ newline @ sub))
        (enumerate 0 items)) = Inr out"
  shows "rendered_as_specified str_lower R shown prefix out"
proof -
  let ?n = "length items"
  let ?r = "\<lambda>i. if isdir (items ! i)
              then R (items ! i) (prefix @ (if i = ?n - 1 then space_indent else pipe_indent))
                     (i = ?n - 1)
              else Inr []"
  let ?f = "\<lambda>i. case ?r i of Inl e \<Rightarrow> Inl e
              | Inr sub \<Rightarrow> Inr (prefix @ (if i = ?n - 1 then branch_last else branch_mid)
                  @ name (items ! i) @ newline @ sub)"
  define subs where "subs = map (\<lambda>i. projr (?r i)) [0..<?n]"
  have run': "seq_concat (map ?f [0..<?n]) = Inr out"
    using run unfolding enumerate_as_map by (simp add: comp_def)
  from seq_concat_map_Inr[OF run']
  have ok: "\<forall>i \<in> set [0..<?n]. \<exists>s. ?f i = Inr s"
    and out: "out = concat (map (\<lambda>i. projr (?f i)) [0..<?n])"
    by blast+
  have r: "?r i = Inr (subs ! i)" if "i < ?n" for i
  proof -
    have "i \<in> set [0..<?n]" using that by simp
    from bspec[OF ok this] obtain s where "?f i = Inr s" ..
    then obtain sub where sub: "?r i = Inr sub" by (cases "?r i") auto
    have e: "subs ! i = projr (?r i)" using that by (simp add: subs_def)
    show ?thesis unfolding e by (simp only: sub sum.sel)
  qed
  have f: "projr (?f i) = prefix @ (if i = ?n - 1 then branch_last else branch_mid)
                  @ name (items ! i) @ newline @ subs ! i" if "i < ?n" for i
    using r[OF that] by simp
  have out': "out = concat (map (\<lambda>i. prefix @ (if i = ?n - 1 then branch_last else branch_mid)
                  @ name (items ! i) @ newline @ subs ! i) [0..<?n])"
    unfolding out using f by (intro arg_cong[where f = concat] map_cong) auto
  have sub: "\<forall>i < ?n. if isdir (items ! i)
            then R (items ! i) (prefix @ (if i = ?n - 1 then space_indent else pipe_indent))
                   (i = ?n - 1) = Inr (subs ! i)
            else subs ! i = []"
  proof (intro allI impI)
    fix i assume "i < ?n"
    from r[OF this] show "if isdir (items ! i)
            then R (items ! i) (prefix @ (if i = ?n - 1 then space_indent else pipe_indent))
                   (i = ?n - 1) = Inr (subs ! i)
            else subs ! i = []"
      by (cases "isdir (items ! i)") simp_all
  qed
  have ms: "mset items = mset shown" unfolding items by simp
  have len: "length subs = ?n" by (simp add: subs_def)
  show ?thesis
    unfolding rendered_as_specified_def
    apply (intro exI[of _ items] exI[of _ subs] conjI)
         apply (rule ms)
        apply (rule len)
    using sort_key_dirs_first[OF items] apply blast
    using sort_key_dirs_first[OF items] apply blast
     apply (rule sub)
    using out' apply simp
    done
qed


lemma append_if_distrib: "(if c then p @ a else p @ b) = p @ (if c then a else b)"
  by simp

text \<open>
  C7. At every level, for every indentation, what \<open>generate_tree\<close> returns for a directory
  that can be listed is the rendering of its non-excluded children as specified:
  directories before files, ascending in the name lower-cased by \<open>str.lower\<close> within each
  group, each line made of the accumulated indentation and the branch glyph of a non-last
  or last sibling. This holds for both variants, and whatever function \<open>str_lower\<close> is.
\<close>

theorem tree_children_order:
  assumes "listdir directory = Inr listing" "current_depth \<le> max_depth"
  shows "(\<forall>out. generate_tree str_lower directory prefix is_last max_depth current_depth = Inr out \<longrightarrow>
            rendered_as_specified str_lower
              (\<lambda>item p l. generate_tree str_lower item p l max_depth (current_depth + 1))
              [item \<leftarrow> listing. \<not> should_exclude_from_tree (name item) (isdir item)]
              prefix out)
       \<and> (\<forall>out. generate_tree_dev str_lower xdirs directory prefix max_depth current_depth = Inr out \<longrightarrow>
            rendered_as_specified str_lower
              (\<lambda>item p l. generate_tree_dev str_lower xdirs item p max_depth (current_depth + 1))
              [item \<leftarrow> listing. \<not> should_exclude xdirs (name item) (isdir item)]
              prefix out)"
proof (intro conjI allI impI)
  have nd: "\<not> max_depth < current_depth" using assms(2) by simp
  fix out
  assume h: "generate_tree str_lower directory prefix is_last max_depth current_depth = Inr out"
  show "rendered_as_specified str_lower
          (\<lambda>item p l. generate_tree str_lower item p l max_depth (current_depth + 1))
          [item \<leftarrow> listing. \<not> should_exclude_from_tree (name item) (isdir item)] prefix out"
    apply (rule loop_rendered[OF refl])
    using h
    unfolding generate_tree.simps[of str_lower directory prefix is_last max_depth current_depth]
      Let_def if_not_P[OF nd] assms(1) sum.case append_if_distrib
    apply assumption
    done
next
  have nd: "\<not> max_depth < current_depth" using assms(2) by simp
  fix out
  assume h: "generate_tree_dev str_lower xdirs directory prefix max_depth current_depth = Inr out"
  show "rendered_as_specified str_lower
          (\<lambda>item p l. generate_tree_dev str_lower xdirs item p max_depth (current_depth + 1))
          [item \<leftarrow> listing. \<not> should_exclude xdirs (name item) (isdir item)] prefix out"
    apply (rule loop_rendered[OF refl])
    using h
    unfolding generate_tree_dev.simps[of str_lower xdirs directory prefix max_depth current_depth]
      Let_def if_not_P[OF nd] assms(1) sum.case
    apply assumption
    done
qed

theorem tree_children_order_witness:
  "listdir small_tree = Inr (entries small_tree) \<and> (0::nat) \<le> 10
   \<and> generate_tree ascii_lower small_tree [] True 10 0
       = Inr (branch_mid @ ''Y'' @ newline @ pipe_indent @ branch_last @ ''q'' @ newline
            @ branch_mid @ ''z'' @ newline @ branch_mid @ ''A.txt'' @ newline
            @ branch_last @ ''b.txt'' @ newline)
   \<and> rendered_as_specified ascii_lower
        (\<lambda>item p l. generate_tree ascii_lower item p l 10 (0 + 1))
        [item \<leftarrow> entries small_tree. \<not> should_exclude_from_tree (name item) (isdir item)] []
        (branch_mid @ ''Y'' @ newline @ pipe_indent @ branch_last @ ''q'' @ newline
            @ branch_mid @ ''z'' @ newline @ branch_mid @ ''A.txt'' @ newline
            @ branch_last @ ''b.txt'' @ newline)
   \<and> generate_tree_dev ascii_lower exclude_dirs small_tree [] 10 0
       = Inr (branch_mid @ ''Y'' @ newline @ pipe_indent @ branch_last @ ''q'' @ newline
            @ branch_mid @ ''z'' @ newline @ branch_mid @ ''A.txt'' @ newline
            @ branch_last @ ''b.txt'' @ newline)
   \<and> rendered_as_specified ascii_lower
        (\<lambda>item p l. generate_tree_dev ascii_lower exclude_dirs item p 10 (0 + 1))
        [item \<leftarrow> entries small_tree. \<not> should_exclude exclude_dirs (name item) (isdir item)] []
        (branch_mid @ ''Y'' @ newline @ pipe_indent @ branch_last @ ''q'' @ newline
            @ branch_mid @ ''z'' @ newline @ branch_mid @ ''A.txt'' @ newline
            @ branch_last @ ''b.txt'' @ newline)"
proof -
  have a: "listdir small_tree = Inr (entries small_tree)"
    by (simp add: small_tree_def)
  have b: "(0::nat) \<le> 10"
    by simp
  have c: "generate_tree ascii_lower small_tree [] True 10 0
       = Inr (branch_mid @ ''Y'' @ newline @ pipe_indent @ branch_last @ ''q'' @ newline
            @ branch_mid @ ''z'' @ newline @ branch_mid @ ''A.txt'' @ newline
            @ branch_last @ ''b.txt'' @ newline)"
    by code_simp
  have d: "generate_tree_dev ascii_lower exclude_dirs small_tree [] 10 0
       = Inr (branch_mid @ ''Y'' @ newline @ pipe_indent @ branch_last @ ''q'' @ newline
            @ branch_mid @ ''z'' @ newline @ branch_mid @ ''A.txt'' @ newline
            @ branch_last @ ''b.txt'' @ newline)"
    by code_simp
  show ?thesis
    using tree_children_order[OF a b, where str_lower = ascii_lower and prefix = "[]"
        and is_last = True and xdirs = exclude_dirs] a b c d
    by blast
qed

text \<open>
  The rule that the definition of a recursive function leaves behind: the calls are all
  accessible as soon as the relation of the recursive calls lies in a well-founded one.
\<close>

lemmas generate_tree_wf_rule = "generate_tree.termination"

lemmas generate_tree_dev_wf_rule = "generate_tree_dev.termination"

text \<open>
  C8. The recursion of \<open>generate_tree\<close> is on the depth alone: every call is in the
  accessible part of the relation of its recursive calls, whatever the directory, so
  \<open>generate_tree\<close> is total; and a call at a depth beyond \<open>max_depth\<close> returns the
  empty string. This holds for both variants.
\<close>

theorem generate_tree_total_and_cut_off:
  "generate_tree_dom (str_lower, directory, prefix, is_last, max_depth, current_depth)
   \<and> generate_tree_dev_dom (str_lower, xdirs, directory, prefix, max_depth, current_depth)
   \<and> (max_depth < current_depth \<longrightarrow>
        generate_tree str_lower directory prefix is_last max_depth current_depth = Inr []
      \<and> generate_tree_dev str_lower xdirs directory prefix max_depth current_depth = Inr [])"
proof -
  have "All generate_tree_dom"
    by (rule generate_tree_wf_rule[of "measure (\<lambda>(s, d, p, l, m, c). Suc m - c)"]) auto
  moreover have "All generate_tree_dev_dom"
    by (rule generate_tree_dev_wf_rule[of "measure (\<lambda>(s, x, d, p, m, c). Suc m - c)"]) auto
  ultimately show ?thesis
    by (simp add: generate_tree.simps generate_tree_dev.simps)
qed

theorem generate_tree_total_and_cut_off_witness:
  "(10::nat) < 11
   \<and> generate_tree ascii_lower example_tree [] True 10 11 = Inr []
   \<and> generate_tree_dev ascii_lower exclude_dirs example_tree [] 10 11 = Inr []
   \<and> generate_tree_dom (ascii_lower, example_tree, [], True, 10, 0)"
proof -
  have a: "(10::nat) < 11"
    by simp
  show ?thesis
    using generate_tree_total_and_cut_off[where str_lower = ascii_lower
        and directory = example_tree and prefix = "[]" and is_last = True and max_depth = 10
        and current_depth = 11 and xdirs = exclude_dirs]
      generate_tree_total_and_cut_off[where str_lower = ascii_lower
        and directory = example_tree and prefix = "[]" and is_last = True and max_depth = 10
        and current_depth = 0 and xdirs = exclude_dirs] a
    by blast
qed

section \<open>Properties of the Content Reader\<close>

lemma example_logo_bytes: "example_opener ''logo.bin'' = Inr [CHR 0xFF, CHR 0xFE, CHR 0x00]"
  by (simp add: example_opener_def)

lemma example_logo_not_utf8: "\<not> utf8_valid [CHR 0xFF, CHR 0xFE, CHR 0x00]"
  by code_simp

lemma example_logo_latin1:
  "universal_newlines (concat (map latin1_char [CHR 0xFF, CHR 0xFE, CHR 0x00]))
   = [CHR 0xC3, CHR 0xBF, CHR 0xC3, CHR 0xBE, CHR 0x00]"
  by code_simp

lemma example_app_bytes: "example_opener ''app.py'' = Inr ''print(1)''"
  by (simp add: example_opener_def)

lemma example_app_utf8: "utf8_valid ''print(1)''"
  by code_simp

lemma example_app_text: "universal_newlines ''print(1)'' = ''print(1)''"
  by code_simp

lemma example_gone:
  "example_opener ''gone.txt''
   = Inl (FileNotFoundError ''[Errno 2] No such file or directory: gone.txt'')"
  by (simp add: example_opener_def)

lemma process_file_not_utf8:
  "fs (relpath p) = Inr bytes \<Longrightarrow> \<not> utf8_valid bytes \<Longrightarrow> process_file str_lower fs wr p = []"
  by (simp add: process_file_def open_read_def)

lemma process_file_not_opened:
  "fs (relpath p) = Inl e \<Longrightarrow> process_file str_lower fs wr p = []"
  by (simp add: process_file_def open_read_def)

lemma example_logo_relpath:
  "example_opener (relpath [''logo.bin'']) = Inr [CHR 0xFF, CHR 0xFE, CHR 0x00]"
  by (simp add: example_opener_def)

lemma example_gone_relpath:
  "example_opener (relpath [''gone.txt''])
   = Inl (FileNotFoundError ''[Errno 2] No such file or directory: gone.txt'')"
  by (simp add: example_opener_def)

lemma example_logo_skipped:
  "process_file ascii_lower example_opener (\<lambda>text. None) [''logo.bin''] = []"
  using example_logo_relpath example_logo_not_utf8 by (rule process_file_not_utf8)

lemma example_gone_skipped:
  "process_file ascii_lower example_opener (\<lambda>text. None) [''gone.txt''] = []"
  using example_gone_relpath by (rule process_file_not_opened)

text \<open>
  The claim C3 as stated fails on \<open>process_file\<close> of \<open>project-to-gpt.py\<close>, one of the
  readers it is drawn from: for a file that is not UTF-8 it does not read again as
  Latin-1, and for a file that cannot be opened it puts no placeholder; in both cases it
  writes nothing for the file.
\<close>

theorem process_file_skips_unreadable:
  "example_opener ''logo.bin'' = Inr [CHR 0xFF, CHR 0xFE, CHR 0x00]
   \<and> \<not> utf8_valid [CHR 0xFF, CHR 0xFE, CHR 0x00]
   \<and> process_file ascii_lower example_opener (\<lambda>text. None) [''logo.bin''] = []
   \<and> example_opener ''gone.txt''
       = Inl (FileNotFoundError ''[Errno 2] No such file or directory: gone.txt'')
   \<and> process_file ascii_lower example_opener (\<lambda>text. None) [''gone.txt''] = []"
  by (intro conjI example_logo_bytes example_logo_not_utf8 example_logo_skipped
      example_gone example_gone_skipped)

text \<open>
  C3, amended. \<open>read_file_content\<close> of the two \<open>generate4LLM\<close> scripts never raises:
  whatever the path and the file system, it returns a string. It decodes as UTF-8 first;
  when that raises \<open>UnicodeDecodeError\<close> it reads the file again as Latin-1, which decodes
  every byte sequence, and returns that text; when the file cannot be opened it returns
  the placeholder with the description of the error. The text is as a text-mode file gives
  it, with universal newlines. \<open>process_file\<close> of \<open>project-to-gpt.py\<close> catches every
  exception as well, but it writes nothing for a file that is not UTF-8 or cannot be
  opened.
\<close>

theorem content_readers_never_raise:
  "(\<exists>text. read_file_content fs file_path = Inr text)
   \<and> (\<forall>bytes. fs file_path = Inr bytes \<and> utf8_valid bytes \<longrightarrow>
         read_file_content fs file_path = Inr (universal_newlines bytes))
   \<and> (\<forall>bytes. fs file_path = Inr bytes \<and> \<not> utf8_valid bytes \<longrightarrow>
         open_read fs file_path UTF8 = Inl UnicodeDecodeError
       \<and> read_file_content fs file_path
           = Inr (universal_newlines (concat (map latin1_char bytes))))
   \<and> (\<forall>e. fs file_path = Inl e \<longrightarrow>
         read_file_content fs file_path = Inr (''[Error reading file: '' @ strerror e @ '']''))
   \<and> (\<forall>bytes. \<exists>text. decode Latin1 bytes = Inr text)
   \<and> (\<forall>bytes. fs (relpath p) = Inr bytes \<and> \<not> utf8_valid bytes \<longrightarrow>
         process_file str_lower fs wr p = [])
   \<and> (\<forall>e. fs (relpath p) = Inl e \<longrightarrow> process_file str_lower fs wr p = [])"
proof -
  have a: "\<exists>text. read_file_content fs file_path = Inr text"
    by (cases "fs file_path")
      (auto simp: read_file_content_def open_read_def split: sum.splits exn.splits)
  have b: "\<forall>bytes. fs file_path = Inr bytes \<and> utf8_valid bytes \<longrightarrow>
         read_file_content fs file_path = Inr (universal_newlines bytes)"
    by (simp add: read_file_content_def open_read_def)
  have c: "\<forall>bytes. fs file_path = Inr bytes \<and> \<not> utf8_valid bytes \<longrightarrow>
         open_read fs file_path UTF8 = Inl UnicodeDecodeError
       \<and> read_file_content fs file_path
           = Inr (universal_newlines (concat (map latin1_char bytes)))"
    by (simp add: read_file_content_def open_read_def)
  have d: "\<forall>e. fs file_path = Inl e \<longrightarrow>
         read_file_content fs file_path = Inr (''[Error reading file: '' @ strerror e @ '']'')"
    by (simp add: read_file_content_def open_read_def)
  have e: "\<forall>bytes. \<exists>text. decode Latin1 bytes = Inr text"
    by simp
  have f: "\<forall>bytes. fs (relpath p) = Inr bytes \<and> \<not> utf8_valid bytes \<longrightarrow>
         process_file str_lower fs wr p = []"
    using process_file_not_utf8 by blast
  have g: "\<forall>e. fs (relpath p) = Inl e \<longrightarrow> process_file str_lower fs wr p = []"
    using process_file_not_opened by blast
  from a b c d e f g show ?thesis by blast
qed

theorem content_readers_never_raise_witness:
  "example_opener ''logo.bin'' = Inr [CHR 0xFF, CHR 0xFE, CHR 0x00]
   \<and> \<not> utf8_valid [CHR 0xFF, CHR 0xFE, CHR 0x00]
   \<and> read_file_content example_opener ''logo.bin''
       = Inr [CHR 0xC3, CHR 0xBF, CHR 0xC3, CHR 0xBE, CHR 0x00]
   \<and> utf8_valid ''print(1)''
   \<and> read_file_content example_opener ''app.py'' = Inr ''print(1)''
   \<and> read_file_content example_opener ''gone.txt''
       = Inr ''[Error reading file: [Errno 2] No such file or directory: gone.txt]''
   \<and> example_opener (relpath [''logo.bin'']) = Inr [CHR 0xFF, CHR 0xFE, CHR 0x00]
   \<and> process_file ascii_lower example_opener (\<lambda>text. None) [''logo.bin''] = []"
proof -
  note T = content_readers_never_raise[where fs = example_opener and str_lower = ascii_lower
      and wr = "\<lambda>text. None" and p = "[''logo.bin'']"]
  have a: "read_file_content example_opener ''logo.bin''
       = Inr (universal_newlines (concat (map latin1_char [CHR 0xFF, CHR 0xFE, CHR 0x00])))"
    by (rule T[where file_path = "''logo.bin''",
          THEN conjunct2, THEN conjunct2, THEN conjunct1, THEN spec, THEN mp, THEN conjunct2])
       (rule conjI[OF example_logo_bytes example_logo_not_utf8])
  have b: "read_file_content example_opener ''app.py'' = Inr (universal_newlines ''print(1)'')"
    by (rule T[where file_path = "''app.py''",
          THEN conjunct2, THEN conjunct1, THEN spec, THEN mp])
       (rule conjI[OF example_app_bytes example_app_utf8])
  have c: "read_file_content example_opener ''gone.txt''
       = Inr (''[Error reading file: ''
            @ strerror (FileNotFoundError ''[Errno 2] No such file or directory: gone.txt'')
            @ '']'')"
    by (rule T[where file_path = "''gone.txt''",
          THEN conjunct2, THEN conjunct2, THEN conjunct2, THEN conjunct1, THEN spec, THEN mp])
       (rule example_gone)
  have c': "''[Error reading file: ''
            @ strerror (FileNotFoundError ''[Errno 2] No such file or directory: gone.txt'')
            @ '']'' = ''[Error reading file: [Errno 2] No such file or directory: gone.txt]''"
    by simp
  note r = example_logo_relpath
  have d: "process_file ascii_lower example_opener (\<lambda>text. None) [''logo.bin''] = []"
    by (rule T[where file_path = "''logo.bin''",
          THEN conjunct2, THEN conjunct2, THEN conjunct2, THEN conjunct2, THEN conjunct2,
          THEN conjunct1, THEN spec, THEN mp])
       (rule conjI[OF r example_logo_not_utf8])
  show ?thesis
    apply (intro conjI)
           apply (rule example_logo_bytes)
          apply (rule example_logo_not_utf8)
         apply (rule a[unfolded example_logo_latin1])
        apply (rule example_app_utf8)
       apply (rule b[unfolded example_app_text])
      apply (rule c[unfolded c'])
     apply (rule r)
    apply (rule d)
    done
qed

section \<open>Properties of \<open>main\<close> in \<open>project-to-gpt.py\<close>\<close>

lemma example_missing_dir: "\<not> is_dir example_world ''/no/such/dir''"
  by (simp add: is_dir_def example_world_def)





section \<open>The report and the listing order\<close>



















subsection \<open>The output file in the working directory\<close>







subsection \<open>Examples\<close>





















end
